theory Spec2Isabelle
  imports Main "HOL-Library.Word" "HOL-Library.Finite_Map" "HOL-Library.Sublist"
begin

unbundle bit_operations_syntax

section \<open>The backend address cache\<close>

text \<open>
  The cache of \<^verbatim>\<open>main.go\<close> is a Go \<^verbatim>\<open>map[string]string\<close> held in an
  \<^verbatim>\<open>atomic.Value\<close>: readers load the published snapshot, writers (serialised by
  \<^verbatim>\<open>_BackendAddrCacheMutex\<close>) build a fresh map and store it. A snapshot is a finite
  map from the header line to the decoded address; \<^verbatim>\<open>len(m1)\<close> is the number of keys.
\<close>

type_synonym cache = "(string, string) fmap"

definition MaxBackendAddrCacheCount :: nat where
  "MaxBackendAddrCacheCount = 1024 * 1024"

definition len_map :: "cache \<Rightarrow> nat" where
  "len_map m = fcard (fmdom m)"

text \<open>\<^verbatim>\<open>init\<close>: the first published snapshot is the empty map.\<close>

definition init_cache :: cache where
  "init_cache = fmempty"

definition readBackendAddrCache :: "cache \<Rightarrow> string \<Rightarrow> string option" where
  "readBackendAddrCache m1 key = fmlookup m1 key"

text \<open>
  \<^verbatim>\<open>writeBackendAddrCache\<close>: \<open>m2\<close> starts empty; the entries of \<open>m1\<close> are copied only
  when \<^verbatim>\<open>len(m1) < _MaxBackendAddrCacheCount\<close>; then \<open>key\<close> is set and \<open>m2\<close> is published.
\<close>

definition writeBackendAddrCache :: "cache \<Rightarrow> string \<Rightarrow> string \<Rightarrow> cache" where
  "writeBackendAddrCache m1 key val =
     (let m2 = (if len_map m1 < MaxBackendAddrCacheCount then m1 else fmempty)
      in fmupd key val m2)"

text \<open>A run of inserts, each one seeing the snapshot the previous one published.\<close>

fun inserts :: "cache \<Rightarrow> (string \<times> string) list \<Rightarrow> cache" where
  "inserts m [] = m"
| "inserts m ((k, v) # kvs) = inserts (writeBackendAddrCache m k v) kvs"

text \<open>Pairwise different keys: the key number \<open>i\<close> is \<open>i\<close> times the letter a.\<close>

definition nth_key :: "nat \<Rightarrow> string" where
  "nth_key i = replicate i (CHR ''a'')"

definition fresh_inserts :: "nat \<Rightarrow> (string \<times> string) list" where
  "fresh_inserts n = map (\<lambda>i. (nth_key i, ''127.0.0.1:80'')) [0..<n]"

section \<open>Base64, as the handler uses it\<close>

text \<open>
  The handler calls \<^verbatim>\<open>base64.StdEncoding.DecodeString\<close> of Go's standard library: the
  alphabet \<^verbatim>\<open>A-Z a-z 0-9 + /\<close>, padding with \<^verbatim>\<open>=\<close>, not strict. The definitions below
  follow \<^verbatim>\<open>encoding/base64\<close>: \<^verbatim>\<open>Encode\<close>, \<^verbatim>\<open>decodeQuantum\<close> and \<^verbatim>\<open>Decode\<close> (the
  eight- and four-character fast paths of \<^verbatim>\<open>Decode\<close> give the result of
  \<^verbatim>\<open>decodeQuantum\<close> and fall back to it on any other input, so the loop over
  \<^verbatim>\<open>decodeQuantum\<close> is all there is to model). A Go \<^verbatim>\<open>string\<close> is a sequence of bytes, so
  a \<^typ>\<open>string\<close> here; a \<^verbatim>\<open>[]byte\<close> is a list of 8-bit words; Go's \<^verbatim>\<open>uint\<close> is a 64-bit word.
\<close>

type_synonym byte = "8 word"

datatype base64_error = CorruptInputError

definition encodeStd :: string where
  "encodeStd = ''ABCDEFGHIJKLMNOPQRSTUVWXYZabcdefghijklmnopqrstuvwxyz0123456789+/''"

definition padChar :: char where
  "padChar = CHR ''=''"

text \<open>\<^verbatim>\<open>enc.encode[v]\<close>, read at an index below 64 only.\<close>

definition encode_tbl :: "64 word \<Rightarrow> char" where
  "encode_tbl v = encodeStd ! unat v"

text \<open>
  \<^verbatim>\<open>enc.decodeMap\<close>: every entry is \<^verbatim>\<open>0xFF\<close>, then the entry of the \<open>i\<close>-th letter of the
  alphabet is set to \<open>i\<close>.
\<close>

definition decodeMap :: "char \<Rightarrow> byte" where
  "decodeMap = foldl (\<lambda>m i. m(encodeStd ! i := of_nat i)) (\<lambda>_. 0xFF) [0..<64]"

fun Encode :: "byte list \<Rightarrow> string" where
  "Encode (b0 # b1 # b2 # src) =
     (let val = push_bit 16 (ucast b0) OR push_bit 8 (ucast b1) OR ucast b2 :: 64 word
      in [encode_tbl (drop_bit 18 val AND 0x3F), encode_tbl (drop_bit 12 val AND 0x3F),
          encode_tbl (drop_bit 6 val AND 0x3F), encode_tbl (val AND 0x3F)] @ Encode src)"
| "Encode [b0, b1] =
     (let val = push_bit 16 (ucast b0) OR push_bit 8 (ucast b1) :: 64 word
      in [encode_tbl (drop_bit 18 val AND 0x3F), encode_tbl (drop_bit 12 val AND 0x3F),
          encode_tbl (drop_bit 6 val AND 0x3F), padChar])"
| "Encode [b0] =
     (let val = push_bit 16 (ucast b0) :: 64 word
      in [encode_tbl (drop_bit 18 val AND 0x3F), encode_tbl (drop_bit 12 val AND 0x3F),
          padChar, padChar])"
| "Encode [] = []"

definition EncodeToString :: "byte list \<Rightarrow> string" where
  "EncodeToString src = Encode src"

text \<open>
  The end of \<^verbatim>\<open>decodeQuantum\<close>: the 6-bit values read so far (\<open>dlen\<close> of them, the rest of
  the four-byte buffer zero) are joined into 24 bits, of which the first \<open>dlen - 1\<close> bytes
  are written to the output.
\<close>

definition quantum_bytes :: "byte list \<Rightarrow> byte list" where
  "quantum_bytes dbuf =
     (let d = dbuf @ replicate (4 - length dbuf) 0;
          val = push_bit 18 (ucast (d ! 0)) OR push_bit 12 (ucast (d ! 1))
                OR push_bit 6 (ucast (d ! 2)) OR ucast (d ! 3) :: 64 word
      in take (length dbuf - 1) [ucast (drop_bit 16 val), ucast (drop_bit 8 val), ucast val])"

text \<open>The 24 bits of three bytes, as \<^verbatim>\<open>Encode\<close> joins them.\<close>

definition join3 :: "byte \<Rightarrow> byte \<Rightarrow> byte \<Rightarrow> 64 word" where
  "join3 b0 b1 b2 = push_bit 16 (ucast b0) OR push_bit 8 (ucast b1) OR ucast b2"

fun skip_newlines :: "string \<Rightarrow> string" where
  "skip_newlines [] = []"
| "skip_newlines (c # src) =
     (if c = CHR 0x0A \<or> c = CHR 0x0D then skip_newlines src else c # src)"

text \<open>
  \<^verbatim>\<open>decodeQuantum\<close>: \<open>dbuf\<close> holds the values read so far (its length is the loop counter
  \<open>j\<close>), the second argument is the input from \<open>si\<close> on. The result is the bytes of the
  quantum and the input left, or the error.
\<close>

fun decodeQuantum :: "byte list \<Rightarrow> string \<Rightarrow> base64_error + byte list \<times> string" where
  "decodeQuantum dbuf [] = (if dbuf = [] then Inr ([], []) else Inl CorruptInputError)"
| "decodeQuantum dbuf (c # src) =
     (let out = decodeMap c in
      if out \<noteq> 0xFF then
        (if length dbuf = 3 then Inr (quantum_bytes (dbuf @ [out]), src)
         else decodeQuantum (dbuf @ [out]) src)
      else if c = CHR 0x0A \<or> c = CHR 0x0D then decodeQuantum dbuf src
      else if c \<noteq> padChar then Inl CorruptInputError
      else if length dbuf < 2 then Inl CorruptInputError
      else if length dbuf = 2 then
        (case skip_newlines src of
           [] \<Rightarrow> Inl CorruptInputError
         | p # src' \<Rightarrow>
             if p \<noteq> padChar then Inl CorruptInputError
             else if skip_newlines src' \<noteq> [] then Inl CorruptInputError
             else Inr (quantum_bytes dbuf, []))
      else if skip_newlines src \<noteq> [] then Inl CorruptInputError
      else Inr (quantum_bytes dbuf, []))"

lemma decodeQuantum_rest_le:
  "decodeQuantum dbuf src = Inr (bs, rest) \<Longrightarrow> length rest \<le> length src"
proof (induction src arbitrary: dbuf bs rest)
  case Nil
  then show ?case by (simp split: if_splits)
next
  case (Cons c src)
  from Cons.prems show ?case
    by (auto simp: Let_def split: if_splits list.splits dest: Cons.IH)
qed

lemma decodeQuantum_shorter:
  "decodeQuantum dbuf src = Inr (bs, rest) \<Longrightarrow> src \<noteq> [] \<Longrightarrow> length rest < length src"
proof (cases src)
  case Nil
  then show "src \<noteq> [] \<Longrightarrow> ?thesis" by simp
next
  case (Cons c src')
  assume "decodeQuantum dbuf src = Inr (bs, rest)"
  with Cons show ?thesis
    by (auto simp: Let_def split: if_splits list.splits dest: decodeQuantum_rest_le)
qed

function Decode :: "string \<Rightarrow> base64_error + byte list" where
  "Decode src =
     (if src = [] then Inr []
      else case decodeQuantum [] src of
             Inl e \<Rightarrow> Inl e
           | Inr (bs, rest) \<Rightarrow>
               (case Decode rest of Inl e \<Rightarrow> Inl e | Inr bs' \<Rightarrow> Inr (bs @ bs')))"
  by pat_completeness auto
termination
  by (relation "measure length") (auto dest: decodeQuantum_shorter)

definition DecodeString :: "string \<Rightarrow> base64_error + byte list" where
  "DecodeString s = Decode s"

section \<open>AES in CFB mode, as the handler uses it\<close>

text \<open>
  \<^verbatim>\<open>aes.NewCipher\<close> accepts a key of 16, 24 or 32 bytes and fails with a key-size error on
  any other; the block it returns encrypts 16 bytes to 16 bytes. The AES permutation
  itself is a parameter of the model, \<open>aes key\<close> on 128-bit words: CFB uses the block
  only in the encrypting direction, and nothing below depends on which function it is.
\<close>

type_synonym block = "128 word \<Rightarrow> 128 word"

type_synonym aes = "byte list \<Rightarrow> block"

definition BlockSize :: nat where
  "BlockSize = 16"

definition block_of_bytes :: "byte list \<Rightarrow> 128 word" where
  "block_of_bytes bs = foldl (\<lambda>w b. push_bit 8 w OR ucast b) 0 bs"

definition bytes_of_block :: "128 word \<Rightarrow> byte list" where
  "bytes_of_block w = map (\<lambda>i. ucast (drop_bit (8 * (15 - i)) w)) [0..<16]"

datatype decode_error =
  Base64Error | KeySizeError | CiphertextTooShort | SaltCheckFailed | SaltNotMatch

definition NewCipher :: "aes \<Rightarrow> byte list \<Rightarrow> decode_error + block" where
  "NewCipher aes key =
     (if length key = 16 \<or> length key = 24 \<or> length key = 32 then Inr (aes key)
      else Inl KeySizeError)"

text \<open>
  \<^verbatim>\<open>XORKeyStream\<close> of \<^verbatim>\<open>crypto/cipher\<close>'s CFB stream, on a stream just made by
  \<^verbatim>\<open>NewCFBDecrypter\<close> (\<open>decrypt\<close>) or \<^verbatim>\<open>NewCFBEncrypter\<close>: \<open>next\<close> starts as the IV; each
  round encrypts \<open>next\<close> into \<open>out\<close>, xors up to one block of the source with it, and
  copies the ciphertext of the round (the source when decrypting, the result when
  encrypting) over the front of \<open>next\<close>.
\<close>

function XORKeyStream :: "bool \<Rightarrow> block \<Rightarrow> byte list \<Rightarrow> byte list \<Rightarrow> byte list" where
  "XORKeyStream decrypt b next src =
     (if src = [] then []
      else let out = bytes_of_block (b (block_of_bytes next));
               n = min (length src) BlockSize;
               dst = map2 (XOR) (take n src) out;
               next' = (if decrypt then take n src else dst) @ drop n next
           in dst @ XORKeyStream decrypt b next' (drop n src))"
  by pat_completeness auto
termination
  by (relation "measure (\<lambda>(decrypt, b, next, src). length src)") (auto simp: BlockSize_def)

section \<open>Decoding the header line\<close>

text \<open>\<^verbatim>\<open>string(bytes)\<close> and \<^verbatim>\<open>[]byte(s)\<close> of Go keep every byte as it is.\<close>

definition string_of_bytes :: "byte list \<Rightarrow> string" where
  "string_of_bytes bs = map (\<lambda>b. char_of (unat b)) bs"

definition bytes_of_string :: "string \<Rightarrow> byte list" where
  "bytes_of_string s = map of_char s"

text \<open>
  Lines 114 to 144 of \<^verbatim>\<open>TCPServer\<close>, on a cache miss: base64, \<^verbatim>\<open>aes.NewCipher\<close>, the
  length check, CFB decryption of everything after the first block, the two salt checks,
  and the address. Each \<^verbatim>\<open>log.Panicln\<close> is an error value, named after its message.
\<close>

definition decode :: "aes \<Rightarrow> byte list \<Rightarrow> byte list \<Rightarrow> string \<Rightarrow> decode_error + string" where
  "decode aes SecretPassphase Salt line =
     (case DecodeString line of
        Inl e \<Rightarrow> Inl Base64Error
      | Inr data \<Rightarrow>
          (case NewCipher aes SecretPassphase of
             Inl e \<Rightarrow> Inl e
           | Inr block \<Rightarrow>
               if length data < BlockSize then Inl CiphertextTooShort
               else
                 let iv = take BlockSize data;
                     text = XORKeyStream True block iv (drop BlockSize data)
                 in if length text < length Salt then Inl SaltCheckFailed
                    else
                      let addrLength = length text - length Salt
                      in if drop addrLength text \<noteq> Salt then Inl SaltNotMatch
                         else Inr (string_of_bytes (take addrLength text))))"

text \<open>
  The token construction. Tokens are issued outside the repository; section 6 of the
  specification gives the formula,
  \<^verbatim>\<open>base64_standard_encode(IV || AES_CFB_encrypt(key, IV, UTF8(address) || salt))\<close>,
  written here with \<^verbatim>\<open>EncodeToString\<close> and the encrypting CFB stream of the same
  library.
\<close>

definition make_token :: "aes \<Rightarrow> byte list \<Rightarrow> byte list \<Rightarrow> byte list \<Rightarrow> string \<Rightarrow> string" where
  "make_token aes key salt iv address =
     EncodeToString (iv @ XORKeyStream False (aes key) iv (bytes_of_string address @ salt))"

text \<open>
  A stand-in for the AES permutation, used where an example has to be computed: it xors
  the block with the first 16 bytes of the key.
\<close>

definition xor_cipher :: aes where
  "xor_cipher key w = w XOR block_of_bytes (take 16 key)"

section \<open>Goroutines and panics\<close>

text \<open>
  A function body ends by returning or in a panic (\<^verbatim>\<open>log.Panicln\<close> logs and panics).
  Either way the deferred calls of the goroutine run, newest first. A deferred function
  that calls \<^verbatim>\<open>recover()\<close> stops the panic, and the goroutine ends as if it had
  returned; \<^verbatim>\<open>Close\<close> on a connection leaves a panic as it is. A panic that is still
  there when the deferred calls are used up ends the whole process.
\<close>

datatype goroutine = Handler | Pipe1 | Pipe2

datatype ending = Normal | Panic

datatype deferred = Recover | Close

fun unwind :: "ending \<Rightarrow> deferred list \<Rightarrow> ending" where
  "unwind e [] = e"
| "unwind e (Recover # ds) = unwind Normal ds"
| "unwind e (Close # ds) = unwind e ds"

section \<open>The connection handler\<close>

text \<open>
  What the environment gives one accepted connection: the result of
  \<^verbatim>\<open>rdr.ReadLine()\<close> (the line, \<open>isPrefix\<close>, and whether \<open>err\<close> is set), whether
  \<^verbatim>\<open>net.Dial\<close> fails for an address, and for the relay the order in which the scheduler
  lets its goroutines step and how the body of each pipe ends.
\<close>

record conn =
  rl_line :: string
  rl_isPrefix :: bool
  rl_err :: bool
  dial_err :: "string \<Rightarrow> bool"
  relay_sched :: "goroutine list"
  pipe_body :: "goroutine \<Rightarrow> ending"

text \<open>
  Every path through the goroutine of a connection ends in a \<^verbatim>\<open>log.Panicln\<close>, which the
  deferred \<^verbatim>\<open>recover\<close> of the goroutine catches: after the header read, in a decode
  step, after the dial, or at line 166 once the relay is over.
\<close>

datatype outcome = ReadLineFailed | DecodeFailed decode_error | DialFailed | Relayed string

text \<open>Lines 112 to 148: the cache first, the decoder on a miss, the insert on success.\<close>

definition resolve ::
  "aes \<Rightarrow> byte list \<Rightarrow> byte list \<Rightarrow> cache \<Rightarrow> string \<Rightarrow> (decode_error + string) \<times> cache" where
  "resolve aes SecretPassphase Salt m line =
     (case readBackendAddrCache m line of
        Some addr \<Rightarrow> (Inr addr, m)
      | None \<Rightarrow>
          (case decode aes SecretPassphase Salt line of
             Inl e \<Rightarrow> (Inl e, m)
           | Inr addr \<Rightarrow> (Inr addr, writeBackendAddrCache m line addr)))"

definition handle ::
  "aes \<Rightarrow> byte list \<Rightarrow> byte list \<Rightarrow> cache \<Rightarrow> conn \<Rightarrow> outcome \<times> cache" where
  "handle aes SecretPassphase Salt m c =
     (if rl_err c \<or> rl_isPrefix c then (ReadLineFailed, m)
      else case resolve aes SecretPassphase Salt m (rl_line c) of
             (Inl e, m') \<Rightarrow> (DecodeFailed e, m')
           | (Inr addr, m') \<Rightarrow>
               if dial_err c addr then (DialFailed, m') else (Relayed addr, m'))"

text \<open>
  How the body of the handler goroutine ends, and the deferred calls it has registered by
  then, newest first: the closure with \<^verbatim>\<open>recover()\<close> of lines 94 to 98 is deferred
  first, \<^verbatim>\<open>c.Close()\<close> at line 99, and \<^verbatim>\<open>backend.Close()\<close> at line 156 once the dial has
  succeeded. The body never returns: each outcome is a \<^verbatim>\<open>log.Panicln\<close>.
\<close>

fun handler_body :: "outcome \<Rightarrow> ending" where
  "handler_body out = Panic"

fun handler_defers :: "outcome \<Rightarrow> deferred list" where
  "handler_defers (Relayed addr) = [Close, Close, Recover]"
| "handler_defers out = [Close, Recover]"

section \<open>The relay\<close>

text \<open>
  Lines 159 to 164 and \<^verbatim>\<open>pipe\<close>: three goroutines and one \<^verbatim>\<open>sync.WaitGroup\<close>. The
  handler starts the two pipes and calls \<^verbatim>\<open>wg.Wait()\<close>, which returns when the counter is
  zero. A pipe, once started, calls \<^verbatim>\<open>wg.Add(1)\<close>, copies until \<^verbatim>\<open>io.Copy\<close> returns, and
  calls \<^verbatim>\<open>wg.Done()\<close> in its deferred function. The scheduler picks which goroutine
  takes the next step; a goroutine that cannot take one is left where it is.
\<close>

datatype handler_pc = GoPipe1 | GoPipe2 | Wait | Returned

datatype pipe_pc = NotStarted | Started | Copying | Copied | Finished

record relay =
  hpc :: handler_pc
  pipe1 :: pipe_pc
  pipe2 :: pipe_pc
  wg :: int

definition relay_init :: relay where
  "relay_init = \<lparr>hpc = GoPipe1, pipe1 = NotStarted, pipe2 = NotStarted, wg = 0\<rparr>"

text \<open>One step of \<^verbatim>\<open>pipe\<close>: the new program counter and the change of the counter.\<close>

fun pipe :: "pipe_pc \<Rightarrow> (pipe_pc \<times> int) option" where
  "pipe NotStarted = None"
| "pipe Started = Some (Copying, 1)"
| "pipe Copying = Some (Copied, 0)"
| "pipe Copied = Some (Finished, - 1)"
| "pipe Finished = None"

fun step :: "goroutine \<Rightarrow> relay \<Rightarrow> relay option" where
  "step Handler s =
     (case hpc s of
        GoPipe1 \<Rightarrow> Some (s\<lparr>hpc := GoPipe2, pipe1 := Started\<rparr>)
      | GoPipe2 \<Rightarrow> Some (s\<lparr>hpc := Wait, pipe2 := Started\<rparr>)
      | Wait \<Rightarrow> if wg s = 0 then Some (s\<lparr>hpc := Returned\<rparr>) else None
      | Returned \<Rightarrow> None)"
| "step Pipe1 s =
     (case pipe (pipe1 s) of
        None \<Rightarrow> None
      | Some (pc, d) \<Rightarrow> Some (s\<lparr>pipe1 := pc, wg := wg s + d\<rparr>))"
| "step Pipe2 s =
     (case pipe (pipe2 s) of
        None \<Rightarrow> None
      | Some (pc, d) \<Rightarrow> Some (s\<lparr>pipe2 := pc, wg := wg s + d\<rparr>))"

fun run :: "goroutine list \<Rightarrow> relay \<Rightarrow> relay" where
  "run [] s = s"
| "run (g # gs) s = (case step g s of None \<Rightarrow> run gs s | Some s' \<Rightarrow> run gs s')"

text \<open>A direction has terminated when its \<^verbatim>\<open>io.Copy\<close> has returned.\<close>

definition terminated :: "pipe_pc \<Rightarrow> bool" where
  "terminated pc = (pc = Copied \<or> pc = Finished)"

text \<open>
  The end of a pipe goroutine. Its only deferred call is the closure of lines 69 to 74,
  which calls \<^verbatim>\<open>wg.Done()\<close> first and \<^verbatim>\<open>recover()\<close> after it. \<^verbatim>\<open>Done\<close> panics when it
  would take the counter below zero, and then nothing is left to stop that panic;
  otherwise the \<^verbatim>\<open>recover()\<close> stops a panic of the body. The first argument is the
  counter when the closure runs, the second how the body ended. Of the \<^verbatim>\<open>WaitGroup\<close> the
  model has the counter, as its documentation describes it; the further misuse checks
  of the runtime are left out.
\<close>

definition pipe_end :: "int \<Rightarrow> ending \<Rightarrow> ending" where
  "pipe_end counter body = (if counter - 1 < 0 then Panic else unwind body [Recover])"

text \<open>The next step of the goroutine is the deferred closure of a pipe.\<close>

definition closing :: "goroutine \<Rightarrow> relay \<Rightarrow> bool" where
  "closing g s = (g = Pipe1 \<and> pipe1 s = Copied \<or> g = Pipe2 \<and> pipe2 s = Copied)"

text \<open>
  The pipes of one relay along a schedule: \<open>Panic\<close> as soon as a pipe goroutine ends in
  a panic, \<open>Normal\<close> when none does.
\<close>

fun pipes_end :: "(goroutine \<Rightarrow> ending) \<Rightarrow> goroutine list \<Rightarrow> relay \<Rightarrow> ending" where
  "pipes_end body [] s = Normal"
| "pipes_end body (g # gs) s =
     (if closing g s \<and> pipe_end (wg s) (body g) = Panic then Panic
      else pipes_end body gs (case step g s of None \<Rightarrow> s | Some s' \<Rightarrow> s'))"

text \<open>
  What holds in every state of the relay: the counter is the number of pipes between
  their \<^verbatim>\<open>wg.Add(1)\<close> and their \<^verbatim>\<open>wg.Done()\<close>, and a pipe the handler has not started
  yet has not moved.
\<close>

definition counted :: "pipe_pc \<Rightarrow> int" where
  "counted pc = (if pc = Copying \<or> pc = Copied then 1 else 0)"

definition counter_ok :: "relay \<Rightarrow> bool" where
  "counter_ok s =
     (wg s = counted (pipe1 s) + counted (pipe2 s)
      \<and> (if hpc s = GoPipe1 then pipe1 s = NotStarted \<and> pipe2 s = NotStarted
         else if hpc s = GoPipe2 then pipe2 s = NotStarted else True))"

section \<open>The accept loop\<close>

text \<open>
  The goroutines of one connection: the handler, whose body ends in the panic of its
  outcome and whose deferred calls then run, and, when the relay was reached, the two
  pipes. \<open>Panic\<close> means that one of them ends in a panic nothing has stopped.
\<close>

definition goroutines_end :: "conn \<Rightarrow> outcome \<Rightarrow> ending" where
  "goroutines_end c out =
     (case unwind (handler_body out) (handler_defers out) of
        Panic \<Rightarrow> Panic
      | Normal \<Rightarrow>
          (case out of
             Relayed addr \<Rightarrow> pipes_end (pipe_body c) (relay_sched c) relay_init
           | _ \<Rightarrow> Normal))"

text \<open>
  The accept loop of \<^verbatim>\<open>TCPServer\<close> over the results of \<^verbatim>\<open>l.Accept()\<close>: an error is
  \<^verbatim>\<open>log.Fatal\<close>, which exits the process; a connection is handled in its goroutine and the
  loop goes on, unless a goroutine of the connection ends in a panic nothing has stopped,
  which ends the process. When the results given are used up the loop is waiting in
  \<^verbatim>\<open>Accept\<close>.
\<close>

datatype accept = AcceptError | Accepted conn

datatype process = Accepting | Exited | Crashed

record server =
  status :: process
  snapshot :: cache
  outcomes :: "outcome list"

definition server_init :: server where
  "server_init = \<lparr>status = Accepting, snapshot = init_cache, outcomes = []\<rparr>"

fun TCPServer :: "aes \<Rightarrow> byte list \<Rightarrow> byte list \<Rightarrow> server \<Rightarrow> accept list \<Rightarrow> server" where
  "TCPServer aes SecretPassphase Salt s [] = s"
| "TCPServer aes SecretPassphase Salt s (AcceptError # evs) = s\<lparr>status := Exited\<rparr>"
| "TCPServer aes SecretPassphase Salt s (Accepted c # evs) =
     (case handle aes SecretPassphase Salt (snapshot s) c of
        (out, m') \<Rightarrow>
          (case goroutines_end c out of
             Panic \<Rightarrow> s\<lparr>status := Crashed, snapshot := m', outcomes := outcomes s @ [out]\<rparr>
           | Normal \<Rightarrow>
               TCPServer aes SecretPassphase Salt
                 (s\<lparr>snapshot := m', outcomes := outcomes s @ [out]\<rparr>) evs))"


section \<open>Example configuration\<close>

text \<open>
  A key of 16 bytes, the salt \<^verbatim>\<open>v1\<close>, an IV, and connections whose backend can be dialled
  only at \<^verbatim>\<open>127.0.0.1:80\<close>, whose relay lets the handler step first, and whose first pipe
  panics in its body. With \<open>xor_cipher\<close> for the block function,
  \<^verbatim>\<open>AAECAwQFBgcICQoLDA0ODwECBx4AHgAeAQpTWRlY\<close> is the token of \<^verbatim>\<open>127.0.0.1:80\<close> and
  \<^verbatim>\<open>AAECAwQFBgcICQoLDA0ODwEAHgAeAB4BCghbH14=\<close> the token of \<^verbatim>\<open>10.0.0.1:80\<close>.
\<close>

definition example_key :: "byte list" where
  "example_key = bytes_of_string ''0123456789abcdef''"

definition example_salt :: "byte list" where
  "example_salt = bytes_of_string ''v1''"

definition example_iv :: "byte list" where
  "example_iv = map of_nat [0..<16]"

definition example_conn :: "string \<Rightarrow> conn" where
  "example_conn line =
     \<lparr>rl_line = line, rl_isPrefix = False, rl_err = False,
      dial_err = (\<lambda>addr. addr \<noteq> ''127.0.0.1:80''),
      relay_sched = [Handler, Handler, Handler, Pipe1, Pipe2, Pipe1, Pipe2, Pipe2, Pipe1],
      pipe_body = (\<lambda>g. if g = Pipe1 then Panic else Normal)\<rparr>"

definition example_accepts :: "accept list" where
  "example_accepts =
     [Accepted ((example_conn [])\<lparr>rl_err := True\<rparr>),
      Accepted ((example_conn ''AAECAwQFBgcICQoL'')\<lparr>rl_isPrefix := True\<rparr>),
      Accepted (example_conn ''not base64!''),
      Accepted (example_conn ''AAECAwQFBgc=''),
      Accepted (example_conn ''AAECAwQFBgcICQoLDA0ODwECBx4AHgAeAQpTWRlb''),
      Accepted (example_conn ''AAECAwQFBgcICQoLDA0ODwEAHgAeAB4BCghbH14=''),
      Accepted (example_conn ''AAECAwQFBgcICQoLDA0ODwECBx4AHgAeAQpTWRlY'')]"

section \<open>Properties of the cache\<close>

lemma len_map_empty: "len_map fmempty = 0"
  by (simp add: len_map_def)

lemma len_map_upd_le: "len_map (fmupd k v m) \<le> Suc (len_map m)"
  by (simp add: len_map_def fcard_finsert_if)

lemma len_map_upd_fresh: "k |\<notin>| fmdom m \<Longrightarrow> len_map (fmupd k v m) = Suc (len_map m)"
  by (simp add: len_map_def fcard_finsert_if)

lemma len_map_write_le:
  assumes "len_map m \<le> MaxBackendAddrCacheCount"
  shows "len_map (writeBackendAddrCache m k v) \<le> MaxBackendAddrCacheCount"
proof (cases "len_map m < MaxBackendAddrCacheCount")
  case True
  then have "writeBackendAddrCache m k v = fmupd k v m"
    by (simp add: writeBackendAddrCache_def)
  with True len_map_upd_le [of k v m] show ?thesis by simp
next
  case False
  then have "writeBackendAddrCache m k v = fmupd k v fmempty"
    by (simp add: writeBackendAddrCache_def)
  then have "len_map (writeBackendAddrCache m k v) = 1"
    by (simp add: len_map_def fcard_finsert_if)
  then show ?thesis by (simp add: MaxBackendAddrCacheCount_def)
qed

lemma len_map_inserts_le:
  "len_map m \<le> MaxBackendAddrCacheCount \<Longrightarrow> len_map (inserts m kvs) \<le> MaxBackendAddrCacheCount"
proof (induction kvs arbitrary: m)
  case Nil
  then show ?case by simp
next
  case (Cons kv kvs)
  obtain k v where kv: "kv = (k, v)" by (cases kv)
  from Cons.prems have "len_map (writeBackendAddrCache m k v) \<le> MaxBackendAddrCacheCount"
    by (rule len_map_write_le)
  then show ?case using Cons.IH kv by simp
qed

lemma inserts_append: "inserts m (xs @ ys) = inserts (inserts m xs) ys"
  by (induction xs arbitrary: m) auto

lemma nth_key_inj: "nth_key i = nth_key j \<Longrightarrow> i = j"
  unfolding nth_key_def by (metis length_replicate)

lemma fresh_inserts_Suc:
  "fresh_inserts (Suc n) = fresh_inserts n @ [(nth_key n, ''127.0.0.1:80'')]"
  by (simp add: fresh_inserts_def)

lemma fresh_inserts_state:
  "n \<le> MaxBackendAddrCacheCount \<Longrightarrow>
     fmdom (inserts fmempty (fresh_inserts n)) = nth_key |`| fset_of_list [0..<n]
     \<and> len_map (inserts fmempty (fresh_inserts n)) = n"
proof (induction n)
  case 0
  then show ?case by (simp add: fresh_inserts_def len_map_def)
next
  case (Suc n)
  let ?m = "inserts fmempty (fresh_inserts n)"
  from Suc have dom: "fmdom ?m = nth_key |`| fset_of_list [0..<n]" and len: "len_map ?m = n"
    by simp_all
  from Suc.prems len have lt: "len_map ?m < MaxBackendAddrCacheCount" by simp
  have step: "inserts fmempty (fresh_inserts (Suc n)) = fmupd (nth_key n) ''127.0.0.1:80'' ?m"
    using lt by (simp add: fresh_inserts_Suc inserts_append writeBackendAddrCache_def)
  have fresh: "nth_key n |\<notin>| fmdom ?m"
    using dom by (auto simp: fset_of_list.rep_eq dest: nth_key_inj)
  have "fmdom (fmupd (nth_key n) ''127.0.0.1:80'' ?m) = nth_key |`| fset_of_list [0..<Suc n]"
    using dom by (auto simp: fset_of_list.rep_eq)
  moreover have "len_map (fmupd (nth_key n) ''127.0.0.1:80'' ?m) = Suc n"
    using len_map_upd_fresh [OF fresh] len by simp
  ultimately show ?case using step by simp
qed

text \<open>
  Claim C4. Insert semantics: below the maximum the new snapshot is the old one with the
  key set to the value; once the old snapshot has reached the maximum the new snapshot
  holds the new entry only.
\<close>

theorem C4_insert_semantics:
  "(len_map m < MaxBackendAddrCacheCount \<longrightarrow> writeBackendAddrCache m k v = fmupd k v m)
   \<and> (MaxBackendAddrCacheCount \<le> len_map m \<longrightarrow>
        writeBackendAddrCache m k v = fmupd k v fmempty)"
  by (simp add: writeBackendAddrCache_def)

theorem C4_insert_semantics_witness:
  "len_map fmempty < MaxBackendAddrCacheCount
   \<and> writeBackendAddrCache fmempty ''dG9rZW4='' ''127.0.0.1:80''
       = fmupd ''dG9rZW4='' ''127.0.0.1:80'' fmempty
   \<and> MaxBackendAddrCacheCount
       \<le> len_map (inserts fmempty (fresh_inserts MaxBackendAddrCacheCount))
   \<and> writeBackendAddrCache (inserts fmempty (fresh_inserts MaxBackendAddrCacheCount))
         ''dG9rZW4='' ''127.0.0.1:80''
       = fmupd ''dG9rZW4='' ''127.0.0.1:80'' fmempty"
proof -
  have below: "len_map fmempty < MaxBackendAddrCacheCount"
    by (simp add: len_map_empty MaxBackendAddrCacheCount_def)
  have full: "MaxBackendAddrCacheCount
      \<le> len_map (inserts fmempty (fresh_inserts MaxBackendAddrCacheCount))"
    using fresh_inserts_state [of MaxBackendAddrCacheCount] by simp
  from below full
    C4_insert_semantics [of fmempty "''dG9rZW4=''" "''127.0.0.1:80''"]
    C4_insert_semantics [of "inserts fmempty (fresh_inserts MaxBackendAddrCacheCount)"
      "''dG9rZW4=''" "''127.0.0.1:80''"]
  show ?thesis by blast
qed

text \<open>
  Claim C5. Cache bound: after any sequence of inserts from the empty cache the number of
  entries is at most the maximum plus one.
\<close>

theorem C5_cache_bound:
  "len_map (inserts init_cache kvs) \<le> MaxBackendAddrCacheCount + 1"
proof -
  have "len_map init_cache \<le> MaxBackendAddrCacheCount"
    by (simp add: init_cache_def len_map_empty)
  then have "len_map (inserts init_cache kvs) \<le> MaxBackendAddrCacheCount"
    by (rule len_map_inserts_le)
  then show ?thesis by simp
qed

text \<open>
  Claim C6, as stated: some sequence of inserts from the empty cache leaves exactly the
  maximum plus one entries. It has no such sequence: the copy of the old snapshot is
  guarded by \<^verbatim>\<open>len(m1) < _MaxBackendAddrCacheCount\<close>, so an insert adds to at most
  maximum minus one entries.
\<close>

theorem C6_overflow_unreachable:
  "\<not> (\<exists>kvs. len_map (inserts init_cache kvs) = MaxBackendAddrCacheCount + 1)"
proof
  assume "\<exists>kvs. len_map (inserts init_cache kvs) = MaxBackendAddrCacheCount + 1"
  then obtain kvs where over: "len_map (inserts init_cache kvs) = MaxBackendAddrCacheCount + 1"
    by blast
  have "len_map init_cache \<le> MaxBackendAddrCacheCount"
    by (simp add: init_cache_def len_map_empty)
  then have "len_map (inserts init_cache kvs) \<le> MaxBackendAddrCacheCount"
    by (rule len_map_inserts_le)
  with over show False by simp
qed

text \<open>
  Claim C6, amended: some sequence of inserts from the empty cache leaves exactly the
  maximum number of entries, and the next insert, whatever its key, publishes a snapshot
  that holds the new entry only.
\<close>

theorem C6_full_then_cleared:
  "\<exists>kvs. len_map (inserts init_cache kvs) = MaxBackendAddrCacheCount
     \<and> (\<forall>k v. inserts init_cache (kvs @ [(k, v)]) = fmupd k v fmempty)"
proof -
  let ?kvs = "fresh_inserts MaxBackendAddrCacheCount"
  have len: "len_map (inserts init_cache ?kvs) = MaxBackendAddrCacheCount"
    using fresh_inserts_state [of MaxBackendAddrCacheCount] by (simp add: init_cache_def)
  then have "inserts init_cache (?kvs @ [(k, v)]) = fmupd k v fmempty" for k v
    by (simp add: inserts_append writeBackendAddrCache_def)
  with len show ?thesis by blast
qed

section \<open>Properties of base64\<close>

declare XORKeyStream.simps [simp del] Decode.simps [simp del]

lemma decodeMap_table:
  "list_all (\<lambda>i. decodeMap (encodeStd ! i) = of_nat i \<and> decodeMap (encodeStd ! i) \<noteq> 0xFF) [0..<64]"
  by code_simp

lemma decodeMap_encodeStd:
  assumes "i < 64"
  shows "decodeMap (encodeStd ! i) = of_nat i \<and> decodeMap (encodeStd ! i) \<noteq> 0xFF"
proof -
  from decodeMap_table
  have "\<forall>i\<in>set [0..<64]. decodeMap (encodeStd ! i) = of_nat i \<and> decodeMap (encodeStd ! i) \<noteq> 0xFF"
    by (simp only: list_all_iff)
  moreover from assms have "i \<in> set [0..<64]" by simp
  ultimately show ?thesis by blast
qed

lemma decodeMap_padChar: "decodeMap padChar = 0xFF"
  by code_simp

lemma and63: "(x :: 64 word) AND 0x3F = take_bit 6 x"
proof -
  have "(0x3F :: 64 word) = mask 6" by (simp add: mask_eq_exp_minus_1)
  then show ?thesis by (simp add: take_bit_eq_mask)
qed

lemma unat_sextet: "unat (take_bit 6 x :: 64 word) < 64"
proof -
  have "take_bit 6 (unat x) < 2 ^ 6"
    by (rule take_bit_nat_less_exp)
  then show ?thesis by (simp add: unsigned_take_bit_eq)
qed

lemma decodeMap_encode_tbl_both:
  "decodeMap (encode_tbl (take_bit 6 x)) = ucast (take_bit 6 x)
   \<and> decodeMap (encode_tbl (take_bit 6 x)) \<noteq> 0xFF"
proof -
  have a: "decodeMap (encode_tbl (take_bit 6 x)) = of_nat (unat (take_bit 6 x))"
    and b: "decodeMap (encode_tbl (take_bit 6 x)) \<noteq> 0xFF"
    unfolding encode_tbl_def
    using decodeMap_encodeStd [OF unat_sextet [of x]] by blast+
  from a have "decodeMap (encode_tbl (take_bit 6 x)) = ucast (take_bit 6 x)"
    by simp
  with b show ?thesis by blast
qed

lemma sextet_ucast:
  "ucast (ucast (take_bit 6 (x :: 64 word)) :: byte) = (take_bit 6 x :: 64 word)"
  by (rule bit_word_eqI) (auto simp: bit_simps)

lemma join_sextets:
  fixes x :: "64 word"
  assumes "take_bit 24 x = x"
  shows "push_bit 18 (take_bit 6 (drop_bit 18 x)) OR push_bit 12 (take_bit 6 (drop_bit 12 x))
         OR push_bit 6 (take_bit 6 (drop_bit 6 x)) OR take_bit 6 x = x"
proof -
  have "push_bit 18 (take_bit 6 (drop_bit 18 x)) OR push_bit 12 (take_bit 6 (drop_bit 12 x))
         OR push_bit 6 (take_bit 6 (drop_bit 6 x)) OR take_bit 6 x = take_bit 24 x"
  proof (rule bit_word_eqI)
    fix n assume "n < LENGTH(64)"
    consider "n < 6" | "6 \<le> n" "n < 12" | "12 \<le> n" "n < 18" | "18 \<le> n" "n < 24" | "24 \<le> n"
      by linarith
    then show "bit (push_bit 18 (take_bit 6 (drop_bit 18 x)) OR push_bit 12 (take_bit 6 (drop_bit 12 x))
         OR push_bit 6 (take_bit 6 (drop_bit 6 x)) OR take_bit 6 x) n = bit (take_bit 24 x) n"
      by cases (auto simp: bit_simps)
  qed
  with assms show ?thesis by simp
qed

lemma join3_take_bit: "take_bit 24 (join3 b0 b1 b2) = join3 b0 b1 b2"
  unfolding join3_def
proof (rule bit_word_eqI)
  fix n assume "n < LENGTH(64)"
  consider "n < 8" | "8 \<le> n" "n < 16" | "16 \<le> n" "n < 24" | "24 \<le> n"
    by linarith
  then show "bit (take_bit 24 (push_bit 16 (ucast b0) OR push_bit 8 (ucast b1) OR ucast b2 :: 64 word)) n
      = bit (push_bit 16 (ucast b0) OR push_bit 8 (ucast b1) OR ucast b2 :: 64 word) n"
    by cases (auto simp: bit_simps dest: bit_imp_le_length)
qed

lemma join3_bytes:
  "ucast (drop_bit 16 (join3 b0 b1 b2)) = b0"
  "ucast (drop_bit 8 (join3 b0 b1 b2)) = b1"
  "ucast (join3 b0 b1 b2) = b2"
  unfolding join3_def
  by (rule bit_word_eqI; auto simp: bit_simps dest: bit_imp_le_length)+

lemma join3_low_zero:
  "take_bit 6 (join3 b0 b1 0) = 0"
  "take_bit 6 (join3 b0 0 0) = 0"
  "take_bit 6 (drop_bit 6 (join3 b0 0 0)) = 0"
  unfolding join3_def
  by (rule bit_word_eqI; auto simp: bit_simps)+


lemma Encode_3:
  "Encode (b0 # b1 # b2 # src) =
     [encode_tbl (take_bit 6 (drop_bit 18 (join3 b0 b1 b2))),
      encode_tbl (take_bit 6 (drop_bit 12 (join3 b0 b1 b2))),
      encode_tbl (take_bit 6 (drop_bit 6 (join3 b0 b1 b2))),
      encode_tbl (take_bit 6 (join3 b0 b1 b2))] @ Encode src"
  by (simp add: Let_def and63 join3_def)

lemma Encode_2:
  "Encode [b0, b1] =
     [encode_tbl (take_bit 6 (drop_bit 18 (join3 b0 b1 0))),
      encode_tbl (take_bit 6 (drop_bit 12 (join3 b0 b1 0))),
      encode_tbl (take_bit 6 (drop_bit 6 (join3 b0 b1 0))), padChar]"
  by (simp add: Let_def and63 join3_def)

lemma Encode_1:
  "Encode [b0] =
     [encode_tbl (take_bit 6 (drop_bit 18 (join3 b0 0 0))),
      encode_tbl (take_bit 6 (drop_bit 12 (join3 b0 0 0))), padChar, padChar]"
  by (simp add: Let_def and63 join3_def)

lemma decodeMap_encode_tbl:
  "decodeMap (encode_tbl (take_bit 6 x)) = ucast (take_bit 6 x)"
  using decodeMap_encode_tbl_both [of x] by blast

lemma sextet_valid: "((ucast (take_bit 6 (x :: 64 word)) :: byte) = 0xFF) = False"
  using decodeMap_encode_tbl_both [of x] by metis

lemma quantum_bytes_4:
  "quantum_bytes [s0, s1, s2, s3] =
     [ucast (drop_bit 16 (push_bit 18 (ucast s0) OR push_bit 12 (ucast s1)
                          OR push_bit 6 (ucast s2) OR ucast s3 :: 64 word)),
      ucast (drop_bit 8 (push_bit 18 (ucast s0) OR push_bit 12 (ucast s1)
                          OR push_bit 6 (ucast s2) OR ucast s3 :: 64 word)),
      ucast (push_bit 18 (ucast s0) OR push_bit 12 (ucast s1)
                          OR push_bit 6 (ucast s2) OR ucast s3 :: 64 word)]"
  by (simp add: quantum_bytes_def Let_def)

lemma quantum_bytes_3:
  "quantum_bytes [s0, s1, s2] =
     [ucast (drop_bit 16 (push_bit 18 (ucast s0) OR push_bit 12 (ucast s1)
                          OR push_bit 6 (ucast s2) OR 0 :: 64 word)),
      ucast (drop_bit 8 (push_bit 18 (ucast s0) OR push_bit 12 (ucast s1)
                          OR push_bit 6 (ucast s2) OR 0 :: 64 word))]"
  by (simp add: quantum_bytes_def Let_def)

lemma quantum_bytes_2:
  "quantum_bytes [s0, s1] =
     [ucast (drop_bit 16 (push_bit 18 (ucast s0) OR push_bit 12 (ucast s1)
                          OR push_bit 6 0 OR 0 :: 64 word))]"
  by (simp add: quantum_bytes_def Let_def)

lemma quantum_bytes_join:
  fixes x :: "64 word"
  assumes "take_bit 24 x = x"
  shows "quantum_bytes [ucast (take_bit 6 (drop_bit 18 x)), ucast (take_bit 6 (drop_bit 12 x)),
           ucast (take_bit 6 (drop_bit 6 x)), ucast (take_bit 6 x)]
         = [ucast (drop_bit 16 x), ucast (drop_bit 8 x), ucast x]"
  by (simp only: quantum_bytes_4 sextet_ucast join_sextets [OF assms])

lemma quantum_bytes_join_2:
  fixes x :: "64 word"
  assumes "take_bit 24 x = x" "take_bit 6 x = 0"
  shows "quantum_bytes [ucast (take_bit 6 (drop_bit 18 x)), ucast (take_bit 6 (drop_bit 12 x)),
           ucast (take_bit 6 (drop_bit 6 x))]
         = [ucast (drop_bit 16 x), ucast (drop_bit 8 x)]"
proof -
  from join_sextets [OF assms(1)]
  have "push_bit 18 (take_bit 6 (drop_bit 18 x)) OR push_bit 12 (take_bit 6 (drop_bit 12 x))
         OR push_bit 6 (take_bit 6 (drop_bit 6 x)) OR 0 = x"
    by (simp only: assms(2))
  then show ?thesis
    by (simp only: quantum_bytes_3 sextet_ucast)
qed

lemma quantum_bytes_join_1:
  fixes x :: "64 word"
  assumes "take_bit 24 x = x" "take_bit 6 x = 0" "take_bit 6 (drop_bit 6 x) = 0"
  shows "quantum_bytes [ucast (take_bit 6 (drop_bit 18 x)), ucast (take_bit 6 (drop_bit 12 x))]
         = [ucast (drop_bit 16 x)]"
proof -
  from join_sextets [OF assms(1)]
  have "push_bit 18 (take_bit 6 (drop_bit 18 x)) OR push_bit 12 (take_bit 6 (drop_bit 12 x))
         OR push_bit 6 0 OR 0 = x"
    by (simp only: assms(2,3))
  then show ?thesis
    by (simp only: quantum_bytes_2 sextet_ucast)
qed

lemma padChar_not_newline: "padChar \<noteq> CHR 0x0A" "padChar \<noteq> CHR 0x0D"
  by (simp_all add: padChar_def)

lemma decodeQuantum_4:
  assumes "decodeMap c0 \<noteq> 0xFF" "decodeMap c1 \<noteq> 0xFF" "decodeMap c2 \<noteq> 0xFF" "decodeMap c3 \<noteq> 0xFF"
  shows "decodeQuantum [] (c0 # c1 # c2 # c3 # rest)
         = Inr (quantum_bytes [decodeMap c0, decodeMap c1, decodeMap c2, decodeMap c3], rest)"
  using assms by (simp add: Let_def)

lemma decodeQuantum_3:
  assumes "decodeMap c0 \<noteq> 0xFF" "decodeMap c1 \<noteq> 0xFF" "decodeMap c2 \<noteq> 0xFF"
  shows "decodeQuantum [] [c0, c1, c2, padChar]
         = Inr (quantum_bytes [decodeMap c0, decodeMap c1, decodeMap c2], [])"
  using assms by (simp add: Let_def decodeMap_padChar padChar_not_newline)

lemma decodeQuantum_2:
  assumes "decodeMap c0 \<noteq> 0xFF" "decodeMap c1 \<noteq> 0xFF"
  shows "decodeQuantum [] [c0, c1, padChar, padChar]
         = Inr (quantum_bytes [decodeMap c0, decodeMap c1], [])"
  using assms by (simp add: Let_def decodeMap_padChar padChar_not_newline)

lemma Decode_Nil: "Decode [] = Inr []"
  by (simp add: Decode.simps)

lemma Decode_Encode: "Decode (Encode bs) = Inr bs"
proof (induction bs rule: Encode.induct)
  case (1 b0 b1 b2 src)
  let ?x = "join3 b0 b1 b2"
  let ?c0 = "encode_tbl (take_bit 6 (drop_bit 18 ?x))"
  let ?c1 = "encode_tbl (take_bit 6 (drop_bit 12 ?x))"
  let ?c2 = "encode_tbl (take_bit 6 (drop_bit 6 ?x))"
  let ?c3 = "encode_tbl (take_bit 6 ?x)"
  have "decodeQuantum [] (?c0 # ?c1 # ?c2 # ?c3 # Encode src)
      = Inr (quantum_bytes [decodeMap ?c0, decodeMap ?c1, decodeMap ?c2, decodeMap ?c3], Encode src)"
    by (rule decodeQuantum_4) (simp_all only: decodeMap_encode_tbl sextet_valid not_False_eq_True)
  moreover have "quantum_bytes [decodeMap ?c0, decodeMap ?c1, decodeMap ?c2, decodeMap ?c3] = [b0, b1, b2]"
    by (simp only: decodeMap_encode_tbl quantum_bytes_join [OF join3_take_bit] join3_bytes)
  ultimately have q: "decodeQuantum [] (?c0 # ?c1 # ?c2 # ?c3 # Encode src) = Inr ([b0, b1, b2], Encode src)"
    by simp
  have "Decode (?c0 # ?c1 # ?c2 # ?c3 # Encode src) = Inr ([b0, b1, b2] @ src)"
    by (subst Decode.simps) (simp add: q "1.IH" del: decodeQuantum.simps Encode.simps)
  then show ?case by (simp add: Encode_3 del: Encode.simps)
next
  case (2 b0 b1)
  let ?x = "join3 b0 b1 0"
  let ?c0 = "encode_tbl (take_bit 6 (drop_bit 18 ?x))"
  let ?c1 = "encode_tbl (take_bit 6 (drop_bit 12 ?x))"
  let ?c2 = "encode_tbl (take_bit 6 (drop_bit 6 ?x))"
  have "decodeQuantum [] [?c0, ?c1, ?c2, padChar]
      = Inr (quantum_bytes [decodeMap ?c0, decodeMap ?c1, decodeMap ?c2], [])"
    by (rule decodeQuantum_3) (simp_all only: decodeMap_encode_tbl sextet_valid not_False_eq_True)
  moreover have "quantum_bytes [decodeMap ?c0, decodeMap ?c1, decodeMap ?c2] = [b0, b1]"
    by (simp only: decodeMap_encode_tbl
        quantum_bytes_join_2 [OF join3_take_bit join3_low_zero(1)] join3_bytes)
  ultimately have q: "decodeQuantum [] [?c0, ?c1, ?c2, padChar] = Inr ([b0, b1], [])"
    by simp
  have "Decode [?c0, ?c1, ?c2, padChar] = Inr [b0, b1]"
    by (subst Decode.simps) (simp add: q Decode_Nil del: decodeQuantum.simps)
  then show ?case by (simp add: Encode_2 del: Encode.simps)
next
  case (3 b0)
  let ?x = "join3 b0 0 0"
  let ?c0 = "encode_tbl (take_bit 6 (drop_bit 18 ?x))"
  let ?c1 = "encode_tbl (take_bit 6 (drop_bit 12 ?x))"
  have "decodeQuantum [] [?c0, ?c1, padChar, padChar]
      = Inr (quantum_bytes [decodeMap ?c0, decodeMap ?c1], [])"
    by (rule decodeQuantum_2) (simp_all only: decodeMap_encode_tbl sextet_valid not_False_eq_True)
  moreover have "quantum_bytes [decodeMap ?c0, decodeMap ?c1] = [b0]"
    by (simp only: decodeMap_encode_tbl
        quantum_bytes_join_1 [OF join3_take_bit join3_low_zero(2) join3_low_zero(3)] join3_bytes)
  ultimately have q: "decodeQuantum [] [?c0, ?c1, padChar, padChar] = Inr ([b0], [])"
    by simp
  have "Decode [?c0, ?c1, padChar, padChar] = Inr [b0]"
    by (subst Decode.simps) (simp add: q Decode_Nil del: decodeQuantum.simps)
  then show ?case by (simp add: Encode_1 del: Encode.simps)
next
  case 4
  then show ?case by (simp add: Decode_Nil)
qed

section \<open>Properties of the CFB stream\<close>

lemma length_bytes_of_block: "length (bytes_of_block w) = BlockSize"
  by (simp add: bytes_of_block_def BlockSize_def)

lemma map2_xor_cancel:
  "length xs \<le> length out \<Longrightarrow> map2 (XOR) (map2 (XOR) xs out) out = (xs :: byte list)"
proof (induction xs arbitrary: out)
  case Nil
  then show ?case by simp
next
  case (Cons x xs)
  then obtain o1 out' where "out = o1 # out'" by (cases out) auto
  with Cons show ?case by (simp add: xor.assoc)
qed

lemma XORKeyStream_Nil: "XORKeyStream d b next [] = []"
  by (simp add: XORKeyStream.simps)

lemma XORKeyStream_length: "length (XORKeyStream d b next src) = length src"
proof (induction d b "next" src rule: XORKeyStream.induct)
  case (1 decrypt b "next" src)
  show ?case
  proof (cases "src = []")
    case True
    then show ?thesis by (simp add: XORKeyStream_Nil)
  next
    case False
    let ?out = "bytes_of_block (b (block_of_bytes next))"
    let ?n = "min (length src) BlockSize"
    let ?dst = "map2 (XOR) (take ?n src) ?out"
    let ?next = "(if decrypt then take ?n src else ?dst) @ drop ?n next"
    have unfold: "XORKeyStream decrypt b next src = ?dst @ XORKeyStream decrypt b ?next (drop ?n src)"
      using False by (subst XORKeyStream.simps) (simp add: Let_def)
    have "length (XORKeyStream decrypt b ?next (drop ?n src)) = length (drop ?n src)"
      using False by (rule "1.IH" [OF _ refl refl refl refl])
    moreover have "length ?dst = ?n"
      by (simp add: length_bytes_of_block)
    ultimately show ?thesis using unfold by simp
  qed
qed

lemma CFB_roundtrip:
  "XORKeyStream True b iv (XORKeyStream False b iv p) = p"
proof (induction "length p" arbitrary: p iv rule: less_induct)
  case less
  define src "next" where "src = p" and "next = iv"
  have IH: "XORKeyStream True b iv' (XORKeyStream False b iv' p') = p'"
    if "length p' < length src" for p' iv'
    using less that by (simp add: src_def)
  have "XORKeyStream True b next (XORKeyStream False b next src) = src"
  proof (cases "src = []")
    case True
    then show ?thesis by (simp add: XORKeyStream_Nil)
  next
    case False
    let ?out = "bytes_of_block (b (block_of_bytes next))"
    let ?n = "min (length src) BlockSize"
    let ?dst = "map2 (XOR) (take ?n src) ?out"
    let ?next = "?dst @ drop ?n next"
    let ?rest = "XORKeyStream False b ?next (drop ?n src)"
    have enc: "XORKeyStream False b next src = ?dst @ ?rest"
      using False by (subst XORKeyStream.simps) (simp add: Let_def)
    have len: "length ?dst = ?n"
      by (simp add: length_bytes_of_block)
    have n_pos: "0 < ?n" using False by (simp add: BlockSize_def)
    have n_le: "?n \<le> BlockSize" by simp
    have IH': "XORKeyStream True b ?next ?rest = drop ?n src"
      using False n_pos by (intro IH) simp
    have ne: "?dst @ ?rest \<noteq> []"
    proof
      assume "?dst @ ?rest = []"
      then have "?dst = []" by (simp only: append_is_Nil_conv)
      then have "length ?dst = 0" by (simp only: list.size)
      with len n_pos show False by linarith
    qed
    have min_eq: "min (length (?dst @ ?rest)) BlockSize = ?n"
      using len by (simp add: XORKeyStream_length)
    have take_eq: "take ?n (?dst @ ?rest) = ?dst" using len by simp
    have drop_eq: "drop ?n (?dst @ ?rest) = ?rest" using len by simp
    have dec: "XORKeyStream True b next (?dst @ ?rest)
        = map2 (XOR) ?dst ?out @ XORKeyStream True b ?next ?rest"
      using ne by (subst XORKeyStream.simps) (simp only: min_eq take_eq drop_eq Let_def if_True if_False)
    have "map2 (XOR) ?dst ?out = take ?n src"
      by (rule map2_xor_cancel) (simp add: length_bytes_of_block)
    with dec IH' enc show ?thesis by simp
  qed
  then show ?case by (simp add: src_def next_def)
qed

section \<open>Properties of the decoder\<close>

lemma string_of_bytes_of_string: "string_of_bytes (bytes_of_string s) = s"
proof -
  have "char_of (unat (of_char c :: byte)) = c" for c
  proof -
    have "(of_char c :: byte) = of_nat (of_char c)" by (simp add: of_nat_of_char)
    then have "unat (of_char c :: byte) = of_char c mod 256"
      by (simp add: unsigned_of_nat take_bit_eq_mod)
    then show ?thesis by simp
  qed
  then show ?thesis by (simp add: string_of_bytes_def bytes_of_string_def comp_def)
qed

lemma decode_after_length_check:
  assumes "DecodeString line = Inr data" and "NewCipher aes SecretPassphase = Inr block"
    and "BlockSize \<le> length data"
  shows "decode aes SecretPassphase Salt line =
     (let text = XORKeyStream True block (take BlockSize data) (drop BlockSize data)
      in if length text < length Salt then Inl SaltCheckFailed
         else if drop (length text - length Salt) text \<noteq> Salt then Inl SaltNotMatch
         else Inr (string_of_bytes (take (length text - length Salt) text)))"
  using assms by (simp add: decode_def Let_def)

lemma suffix_drop: "suffix s t \<longleftrightarrow> length s \<le> length t \<and> drop (length t - length s) t = s"
proof
  assume "suffix s t"
  then obtain pre where "t = pre @ s" by (auto simp: suffix_def)
  then show "length s \<le> length t \<and> drop (length t - length s) t = s" by simp
next
  assume "length s \<le> length t \<and> drop (length t - length s) t = s"
  then have "t = take (length t - length s) t @ s" by (metis append_take_drop_id)
  then show "suffix s t" by (metis suffixI)
qed

lemma example_NewCipher: "NewCipher xor_cipher example_key = Inr (xor_cipher example_key)"
  by (simp add: NewCipher_def example_key_def bytes_of_string_def)



lemma decode_address:
  assumes "DecodeString line = Inr data" and "NewCipher aes SecretPassphase = Inr block"
    and "BlockSize \<le> length data"
    and "XORKeyStream True block (take BlockSize data) (drop BlockSize data)
           = bytes_of_string addr @ Salt"
  shows "decode aes SecretPassphase Salt line = Inr addr"
  using decode_after_length_check [OF assms(1-3), of Salt]
  by (simp add: assms(4) Let_def string_of_bytes_of_string)

lemma decode_other_salt:
  assumes "DecodeString line = Inr data" and "NewCipher aes SecretPassphase = Inr block"
    and "BlockSize \<le> length data"
    and "XORKeyStream True block (take BlockSize data) (drop BlockSize data) = pre @ other"
    and "length other = length Salt" and "other \<noteq> Salt"
  shows "decode aes SecretPassphase Salt line = Inl SaltNotMatch"
  using decode_after_length_check [OF assms(1-3), of Salt]
  by (simp add: assms(4-6) Let_def)

lemma example_base64_127:
  "DecodeString ''AAECAwQFBgcICQoLDA0ODwECBx4AHgAeAQpTWRlY''
     = Inr [0, 1, 2, 3, 4, 5, 6, 7, 8, 9, 10, 11, 12, 13, 14, 15,
            1, 2, 7, 30, 0, 30, 0, 30, 1, 10, 83, 89, 25, 88]"
  by code_simp

lemma example_stream_127:
  "XORKeyStream True (xor_cipher example_key)
     (take BlockSize [0, 1, 2, 3, 4, 5, 6, 7, 8, 9, 10, 11, 12, 13, 14, 15,
            1, 2, 7, 30, 0, 30, 0, 30, 1, 10, 83, 89, 25, 88])
     (drop BlockSize [0, 1, 2, 3, 4, 5, 6, 7, 8, 9, 10, 11, 12, 13, 14, 15,
            1, 2, 7, 30, 0, 30, 0, 30, 1, 10, 83, 89, 25, 88])
     = bytes_of_string ''127.0.0.1:80'' @ example_salt"
  by code_simp

lemma example_base64_other_salt:
  "DecodeString ''AAECAwQFBgcICQoLDA0ODwECBx4AHgAeAQpTWRlb''
     = Inr [0, 1, 2, 3, 4, 5, 6, 7, 8, 9, 10, 11, 12, 13, 14, 15,
            1, 2, 7, 30, 0, 30, 0, 30, 1, 10, 83, 89, 25, 91]"
  by code_simp

lemma example_stream_other_salt:
  "XORKeyStream True (xor_cipher example_key)
     (take BlockSize [0, 1, 2, 3, 4, 5, 6, 7, 8, 9, 10, 11, 12, 13, 14, 15,
            1, 2, 7, 30, 0, 30, 0, 30, 1, 10, 83, 89, 25, 91])
     (drop BlockSize [0, 1, 2, 3, 4, 5, 6, 7, 8, 9, 10, 11, 12, 13, 14, 15,
            1, 2, 7, 30, 0, 30, 0, 30, 1, 10, 83, 89, 25, 91])
     = bytes_of_string ''127.0.0.1:80'' @ bytes_of_string ''v2''"
  by code_simp

lemma example_base64_10:
  "DecodeString ''AAECAwQFBgcICQoLDA0ODwEAHgAeAB4BCghbH14=''
     = Inr [0, 1, 2, 3, 4, 5, 6, 7, 8, 9, 10, 11, 12, 13, 14, 15,
            1, 0, 30, 0, 30, 0, 30, 1, 10, 8, 91, 31, 94]"
  by code_simp

lemma example_stream_10:
  "XORKeyStream True (xor_cipher example_key)
     (take BlockSize [0, 1, 2, 3, 4, 5, 6, 7, 8, 9, 10, 11, 12, 13, 14, 15,
            1, 0, 30, 0, 30, 0, 30, 1, 10, 8, 91, 31, 94])
     (drop BlockSize [0, 1, 2, 3, 4, 5, 6, 7, 8, 9, 10, 11, 12, 13, 14, 15,
            1, 0, 30, 0, 30, 0, 30, 1, 10, 8, 91, 31, 94])
     = bytes_of_string ''10.0.0.1:80'' @ example_salt"
  by code_simp

lemma example_base64_no_salt:
  "DecodeString ''AAECAwQFBgcICQoLDA0ODwECBx4AHgAeAQpTWQ==''
     = Inr [0, 1, 2, 3, 4, 5, 6, 7, 8, 9, 10, 11, 12, 13, 14, 15,
            1, 2, 7, 30, 0, 30, 0, 30, 1, 10, 83, 89]"
  by code_simp

lemma example_stream_no_salt:
  "XORKeyStream True (xor_cipher example_key)
     (take BlockSize [0, 1, 2, 3, 4, 5, 6, 7, 8, 9, 10, 11, 12, 13, 14, 15,
            1, 2, 7, 30, 0, 30, 0, 30, 1, 10, 83, 89])
     (drop BlockSize [0, 1, 2, 3, 4, 5, 6, 7, 8, 9, 10, 11, 12, 13, 14, 15,
            1, 2, 7, 30, 0, 30, 0, 30, 1, 10, 83, 89])
     = bytes_of_string ''127.0.0.1:80''"
  by code_simp

lemma example_base64_iv_only:
  "DecodeString ''AAECAwQFBgcICQoLDA0ODw==''
     = Inr [0, 1, 2, 3, 4, 5, 6, 7, 8, 9, 10, 11, 12, 13, 14, 15]"
  by code_simp

lemma example_base64_short:
  "DecodeString ''AAECAwQFBgc='' = Inr [0, 1, 2, 3, 4, 5, 6, 7]"
  by code_simp




lemma example_decode_other_salt:
  "decode xor_cipher example_key example_salt ''AAECAwQFBgcICQoLDA0ODwECBx4AHgAeAQpTWRlb''
     = Inl SaltNotMatch"
  using example_base64_other_salt example_NewCipher _ example_stream_other_salt
  by (rule decode_other_salt) (simp_all add: BlockSize_def example_salt_def bytes_of_string_def)

lemma example_decode_10:
  "decode xor_cipher example_key example_salt ''AAECAwQFBgcICQoLDA0ODwEAHgAeAB4BCghbH14=''
     = Inr ''10.0.0.1:80''"
  using example_base64_10 example_NewCipher _ example_stream_10
  by (rule decode_address) (simp add: BlockSize_def)


lemma example_decode_iv_only:
  "decode xor_cipher example_key [] ''AAECAwQFBgcICQoLDA0ODw=='' = Inr []"
proof -
  have "XORKeyStream True (xor_cipher example_key)
      (take BlockSize [0, 1, 2, 3, 4, 5, 6, 7, 8, 9, 10, 11, 12, 13, 14, 15])
      (drop BlockSize [0, 1, 2, 3, 4, 5, 6, 7, 8, 9, 10, 11, 12, 13, 14, 15])
      = bytes_of_string [] @ []"
    by (simp add: BlockSize_def XORKeyStream_Nil bytes_of_string_def)
  with example_base64_iv_only example_NewCipher _ show ?thesis
    by (rule decode_address) (simp add: BlockSize_def)
qed

text \<open>
  No goroutine of a connection ends in a panic that nothing has stopped: the handler has
  its \<^verbatim>\<open>recover\<close> deferred before anything else, and a pipe reaches its \<^verbatim>\<open>recover\<close>
  because its \<^verbatim>\<open>wg.Done()\<close> finds the counter at one or more. Without a deferred
  \<^verbatim>\<open>recover\<close> the panic would stay.
\<close>

lemma unwind_Normal: "unwind Normal ds = Normal"
proof (induction ds)
  case Nil
  then show ?case by simp
next
  case (Cons d ds)
  then show ?case by (cases d) simp_all
qed

lemma unwind_no_recover: "Recover \<notin> set ds \<Longrightarrow> unwind Panic ds = Panic"
proof (induction ds)
  case Nil
  then show ?case by simp
next
  case (Cons d ds)
  then show ?case by (cases d) simp_all
qed

lemma handler_recovered: "unwind (handler_body out) (handler_defers out) = Normal"
  by (cases out) simp_all

lemma counter_ok_init: "counter_ok relay_init"
  by (simp add: counter_ok_def counted_def relay_init_def)

lemma counter_ok_step: "counter_ok s \<Longrightarrow> step g s = Some s' \<Longrightarrow> counter_ok s'"
proof (cases g)
  case Handler
  assume "counter_ok s" "step g s = Some s'"
  with Handler show ?thesis
    by (cases "hpc s") (auto simp: counter_ok_def counted_def split: if_splits)
next
  case Pipe1
  assume "counter_ok s" "step g s = Some s'"
  with Pipe1 show ?thesis
    by (cases "pipe1 s"; cases "hpc s") (auto simp: counter_ok_def counted_def)
next
  case Pipe2
  assume "counter_ok s" "step g s = Some s'"
  with Pipe2 show ?thesis
    by (cases "pipe2 s"; cases "hpc s") (auto simp: counter_ok_def counted_def)
qed

lemma closing_counter: "counter_ok s \<Longrightarrow> closing g s \<Longrightarrow> 1 \<le> wg s"
  by (auto simp: counter_ok_def closing_def counted_def split: if_splits)

lemma pipe_end_Normal: "1 \<le> counter \<Longrightarrow> pipe_end counter body = Normal"
  by (simp add: pipe_end_def)

lemma pipes_end_Normal: "counter_ok s \<Longrightarrow> pipes_end body gs s = Normal"
proof (induction gs arbitrary: s)
  case Nil
  then show ?case by simp
next
  case (Cons g gs)
  have a: "pipe_end (wg s) (body g) = Normal" if "closing g s"
    using closing_counter [OF Cons.prems that] by (rule pipe_end_Normal)
  have b: "counter_ok (case step g s of None \<Rightarrow> s | Some s' \<Rightarrow> s')"
    using Cons.prems by (auto split: option.splits dest: counter_ok_step)
  from a Cons.IH [OF b] show ?case by auto
qed

lemma goroutines_end_Normal: "goroutines_end c out = Normal"
  by (cases out)
    (simp_all add: goroutines_end_def pipes_end_Normal counter_ok_init)

lemma TCPServer_Accepted:
  "TCPServer aes k salt s (Accepted c # evs) =
     TCPServer aes k salt
       (s\<lparr>snapshot := snd (handle aes k salt (snapshot s) c),
          outcomes := outcomes s @ [fst (handle aes k salt (snapshot s) c)]\<rparr>) evs"
  by (simp add: goroutines_end_Normal split: prod.splits)


text \<open>
  Resolution through the cache: every entry of a snapshot the accept loop can reach maps
  a line to the address it decodes to, so a lookup answers as the decoder would, and the
  outcome of a connection does not depend on the snapshot it meets.
\<close>

lemma fmlookup_write:
  "fmlookup (writeBackendAddrCache m k v) t = Some a \<Longrightarrow> (t = k \<and> a = v) \<or> fmlookup m t = Some a"
  by (auto simp: writeBackendAddrCache_def split: if_splits)

lemma resolve_result:
  assumes "\<And>t a. fmlookup m t = Some a \<Longrightarrow> decode aes k s t = Inr a"
  shows "fst (resolve aes k s m line) = decode aes k s line"
  using assms by (auto simp: resolve_def readBackendAddrCache_def split: option.splits sum.splits)

lemma resolve_keeps_decoded:
  assumes "\<And>t a. fmlookup m t = Some a \<Longrightarrow> decode aes k s t = Inr a"
    and "fmlookup (snd (resolve aes k s m line)) t = Some a"
  shows "decode aes k s t = Inr a"
  using assms
  by (auto simp: resolve_def readBackendAddrCache_def split: option.splits sum.splits
      dest!: fmlookup_write)

lemma handle_keeps_decoded:
  assumes "\<And>t a. fmlookup m t = Some a \<Longrightarrow> decode aes k s t = Inr a"
    and "fmlookup (snd (handle aes k s m c)) t = Some a"
  shows "decode aes k s t = Inr a"
proof (cases "rl_err c \<or> rl_isPrefix c")
  case True
  with assms show ?thesis by (auto simp: handle_def)
next
  case False
  then have "snd (handle aes k s m c) = snd (resolve aes k s m (rl_line c))"
    by (auto simp: handle_def split: prod.splits sum.splits)
  with assms(2) have "fmlookup (snd (resolve aes k s m (rl_line c))) t = Some a" by simp
  with assms(1) show ?thesis by (rule resolve_keeps_decoded)
qed


lemma TCPServer_keeps_decoded:
  assumes "\<And>t a. fmlookup (snapshot st) t = Some a \<Longrightarrow> decode aes k s t = Inr a"
    and "fmlookup (snapshot (TCPServer aes k s st evs)) t = Some a"
  shows "decode aes k s t = Inr a"
  using assms
proof (induction evs arbitrary: st)
  case Nil
  then show ?case by simp
next
  case (Cons ev evs)
  show ?case
  proof (cases ev)
    case AcceptError
    with Cons.prems show ?thesis by simp
  next
    case (Accepted c)
    let ?st = "st\<lparr>snapshot := snd (handle aes k s (snapshot st) c),
          outcomes := outcomes st @ [fst (handle aes k s (snapshot st) c)]\<rparr>"
    have inv: "decode aes k s t' = Inr a'" if "fmlookup (snapshot ?st) t' = Some a'" for t' a'
    proof -
      from that have "fmlookup (snd (handle aes k s (snapshot st) c)) t' = Some a'" by simp
      with Cons.prems(1) show ?thesis by (rule handle_keeps_decoded)
    qed
    from Cons.prems(2) Accepted
    have "fmlookup (snapshot (TCPServer aes k s ?st evs)) t = Some a"
      by (simp add: TCPServer_Accepted del: TCPServer.simps)
    with inv show ?thesis by (rule Cons.IH)
  qed
qed


lemma reachable_snapshot_decoded:
  "fmlookup (snapshot (TCPServer aes k s server_init evs)) t = Some a \<Longrightarrow> decode aes k s t = Inr a"
proof -
  assume l: "fmlookup (snapshot (TCPServer aes k s server_init evs)) t = Some a"
  have "decode aes k s t' = Inr a'" if "fmlookup (snapshot server_init) t' = Some a'" for t' a'
    using that by (simp add: server_init_def init_cache_def)
  from this l show ?thesis by (rule TCPServer_keeps_decoded)
qed

lemma resolve_reachable:
  "fst (resolve aes k s (snapshot (TCPServer aes k s server_init evs)) line) = decode aes k s line"
  by (rule resolve_result) (rule reachable_snapshot_decoded)

text \<open>
  Claim C1. Round trip: the token built for an address, with a key of valid length and an
  IV of one block, decodes under the same key and salt to that address, and so does its
  resolution through any snapshot of the cache the accept loop can reach. This holds for
  every address, so for the non-empty ones without a newline.
\<close>

theorem C1_round_trip:
  assumes "length key = 16 \<or> length key = 24 \<or> length key = 32" and "length iv = BlockSize"
  shows "decode aes key salt (make_token aes key salt iv D) = Inr D
     \<and> fst (resolve aes key salt (snapshot (TCPServer aes key salt server_init evs))
          (make_token aes key salt iv D)) = Inr D"
proof -
  let ?plain = "bytes_of_string D @ salt"
  let ?cipher = "XORKeyStream False (aes key) iv ?plain"
  have b64: "DecodeString (make_token aes key salt iv D) = Inr (iv @ ?cipher)"
    by (simp add: make_token_def DecodeString_def EncodeToString_def Decode_Encode)
  have nc: "NewCipher aes key = Inr (aes key)"
    using assms(1) by (simp add: NewCipher_def)
  have len: "BlockSize \<le> length (iv @ ?cipher)"
    using assms(2) by simp
  have dec: "XORKeyStream True (aes key) (take BlockSize (iv @ ?cipher)) (drop BlockSize (iv @ ?cipher))
      = ?plain"
    using assms(2) by (simp add: CFB_roundtrip)
  have "decode aes key salt (make_token aes key salt iv D) =
     (let text = ?plain
      in if length text < length salt then Inl SaltCheckFailed
         else if drop (length text - length salt) text \<noteq> salt then Inl SaltNotMatch
         else Inr (string_of_bytes (take (length text - length salt) text)))"
    using decode_after_length_check [OF b64 nc len, of salt] by (simp only: dec)
  then have d: "decode aes key salt (make_token aes key salt iv D) = Inr D"
    by (simp add: Let_def string_of_bytes_of_string)
  then show ?thesis
    by (simp only: resolve_reachable)
qed

theorem C1_round_trip_witness:
  "length example_key = 16 \<and> length example_iv = BlockSize
   \<and> make_token xor_cipher example_key example_salt example_iv ''127.0.0.1:80''
       = ''AAECAwQFBgcICQoLDA0ODwECBx4AHgAeAQpTWRlY''
   \<and> decode xor_cipher example_key example_salt ''AAECAwQFBgcICQoLDA0ODwECBx4AHgAeAQpTWRlY''
       = Inr ''127.0.0.1:80''
   \<and> fst (resolve xor_cipher example_key example_salt
          (snapshot (TCPServer xor_cipher example_key example_salt server_init example_accepts))
          ''AAECAwQFBgcICQoLDA0ODwECBx4AHgAeAQpTWRlY'') = Inr ''127.0.0.1:80''"
proof -
  have k: "length example_key = 16"
    by (simp add: example_key_def bytes_of_string_def)
  have i: "length example_iv = BlockSize"
    by (simp add: example_iv_def BlockSize_def)
  have t: "make_token xor_cipher example_key example_salt example_iv ''127.0.0.1:80''
      = ''AAECAwQFBgcICQoLDA0ODwECBx4AHgAeAQpTWRlY''"
    by code_simp
  from k have "length example_key = 16 \<or> length example_key = 24 \<or> length example_key = 32"
    by simp
  from C1_round_trip [OF this i, of xor_cipher example_salt "''127.0.0.1:80''" example_accepts]
    k i t
  show ?thesis by simp
qed

text \<open>
  Claim C2, as stated: a token whose payload after the IV is empty or shorter than one
  block fails with the truncation error. It does not: the token of \<^verbatim>\<open>10.0.0.1:80\<close>
  carries 13 bytes after the IV and decodes to its address, and under an empty salt a
  payload of the IV alone decodes to the empty address. The check of line 126 is
  \<^verbatim>\<open>len(data) < aes.BlockSize\<close>, on the whole payload.
\<close>

theorem C2_short_remainder_accepted:
  "DecodeString ''AAECAwQFBgcICQoLDA0ODwEAHgAeAB4BCghbH14=''
     = Inr [0, 1, 2, 3, 4, 5, 6, 7, 8, 9, 10, 11, 12, 13, 14, 15,
            1, 0, 30, 0, 30, 0, 30, 1, 10, 8, 91, 31, 94]
   \<and> decode xor_cipher example_key example_salt ''AAECAwQFBgcICQoLDA0ODwEAHgAeAB4BCghbH14=''
       = Inr ''10.0.0.1:80''
   \<and> DecodeString ''AAECAwQFBgcICQoLDA0ODw==''
       = Inr [0, 1, 2, 3, 4, 5, 6, 7, 8, 9, 10, 11, 12, 13, 14, 15]
   \<and> decode xor_cipher example_key [] ''AAECAwQFBgcICQoLDA0ODw=='' = Inr []"
  using example_base64_10 example_decode_10 example_base64_iv_only example_decode_iv_only
  by blast

text \<open>
  Claim C2, amended: for a token whose base64 decoding succeeds, under a key of valid
  length, decode fails with the truncation error exactly when the decoded payload is
  shorter than one block.
\<close>

theorem C2_truncation_iff:
  assumes "DecodeString line = Inr data" and "NewCipher aes SecretPassphase = Inr block"
  shows "decode aes SecretPassphase Salt line = Inl CiphertextTooShort \<longleftrightarrow> length data < BlockSize"
  using assms by (auto simp: decode_def Let_def)

theorem C2_truncation_iff_witness:
  "DecodeString ''AAECAwQFBgc='' = Inr [0, 1, 2, 3, 4, 5, 6, 7]
   \<and> NewCipher xor_cipher example_key = Inr (xor_cipher example_key)
   \<and> length [0, 1, 2, 3, 4, 5, 6, 7 :: byte] < BlockSize
   \<and> decode xor_cipher example_key example_salt ''AAECAwQFBgc='' = Inl CiphertextTooShort"
proof -
  have l: "length [0, 1, 2, 3, 4, 5, 6, 7 :: byte] < BlockSize"
    by (simp add: BlockSize_def)
  from C2_truncation_iff [OF example_base64_short example_NewCipher, of example_salt]
    example_base64_short l example_NewCipher
  show ?thesis by blast
qed

text \<open>
  Claim C3. Salt verification and strip: for a token that passes base64 decoding and the
  length check, decode succeeds exactly when the decrypted plaintext ends with the salt;
  then the address is the plaintext before the salt; otherwise the result is one of the
  two salt errors and no address.
\<close>

theorem C3_salt_check:
  assumes "DecodeString line = Inr data" and "NewCipher aes SecretPassphase = Inr block"
    and "BlockSize \<le> length data"
  shows "((\<exists>addr. decode aes SecretPassphase Salt line = Inr addr)
           \<longleftrightarrow> suffix Salt (XORKeyStream True block (take BlockSize data) (drop BlockSize data)))
       \<and> (\<forall>pre. XORKeyStream True block (take BlockSize data) (drop BlockSize data) = pre @ Salt
             \<longrightarrow> decode aes SecretPassphase Salt line = Inr (string_of_bytes pre))
       \<and> (\<not> suffix Salt (XORKeyStream True block (take BlockSize data) (drop BlockSize data))
             \<longrightarrow> decode aes SecretPassphase Salt line = Inl SaltCheckFailed
               \<or> decode aes SecretPassphase Salt line = Inl SaltNotMatch)"
proof -
  let ?text = "XORKeyStream True block (take BlockSize data) (drop BlockSize data)"
  note d = decode_after_length_check [OF assms, of Salt]
  have a: "(\<exists>addr. decode aes SecretPassphase Salt line = Inr addr) \<longleftrightarrow> suffix Salt ?text"
    by (auto simp: d Let_def suffix_drop)
  have b: "decode aes SecretPassphase Salt line = Inr (string_of_bytes pre)" if "?text = pre @ Salt" for pre
    by (simp add: d Let_def that)
  have c: "decode aes SecretPassphase Salt line = Inl SaltCheckFailed
           \<or> decode aes SecretPassphase Salt line = Inl SaltNotMatch" if "\<not> suffix Salt ?text"
    using that by (auto simp: d Let_def suffix_drop)
  from a b c show ?thesis by blast
qed

theorem C3_salt_check_witness:
  "DecodeString ''AAECAwQFBgcICQoLDA0ODwECBx4AHgAeAQpTWRlY''
     = Inr [0, 1, 2, 3, 4, 5, 6, 7, 8, 9, 10, 11, 12, 13, 14, 15,
            1, 2, 7, 30, 0, 30, 0, 30, 1, 10, 83, 89, 25, 88]
   \<and> NewCipher xor_cipher example_key = Inr (xor_cipher example_key)
   \<and> BlockSize \<le> length [0, 1, 2, 3, 4, 5, 6, 7, 8, 9, 10, 11, 12, 13, 14, 15,
            1, 2, 7, 30, 0, 30, 0, 30, 1, 10, 83, 89, 25, 88 :: byte]
   \<and> XORKeyStream True (xor_cipher example_key)
        (take BlockSize [0, 1, 2, 3, 4, 5, 6, 7, 8, 9, 10, 11, 12, 13, 14, 15,
            1, 2, 7, 30, 0, 30, 0, 30, 1, 10, 83, 89, 25, 88])
        (drop BlockSize [0, 1, 2, 3, 4, 5, 6, 7, 8, 9, 10, 11, 12, 13, 14, 15,
            1, 2, 7, 30, 0, 30, 0, 30, 1, 10, 83, 89, 25, 88])
       = bytes_of_string ''127.0.0.1:80'' @ example_salt
   \<and> suffix example_salt (bytes_of_string ''127.0.0.1:80'' @ example_salt)
   \<and> decode xor_cipher example_key example_salt ''AAECAwQFBgcICQoLDA0ODwECBx4AHgAeAQpTWRlY''
       = Inr ''127.0.0.1:80''"
proof -
  let ?data = "[0, 1, 2, 3, 4, 5, 6, 7, 8, 9, 10, 11, 12, 13, 14, 15,
            1, 2, 7, 30, 0, 30, 0, 30, 1, 10, 83, 89, 25, 88] :: byte list"
  have l: "BlockSize \<le> length ?data"
    by (simp add: BlockSize_def)
  have sfx: "suffix example_salt (bytes_of_string ''127.0.0.1:80'' @ example_salt)"
    by (rule suffix_appendI) simp
  from C3_salt_check [OF example_base64_127 example_NewCipher l, of example_salt]
    example_stream_127
  have "decode xor_cipher example_key example_salt ''AAECAwQFBgcICQoLDA0ODwECBx4AHgAeAQpTWRlY''
      = Inr (string_of_bytes (bytes_of_string ''127.0.0.1:80''))"
    by blast
  then have "decode xor_cipher example_key example_salt ''AAECAwQFBgcICQoLDA0ODwECBx4AHgAeAQpTWRlY''
      = Inr ''127.0.0.1:80''"
    by (simp only: string_of_bytes_of_string)
  with example_base64_127 example_NewCipher l example_stream_127 sfx show ?thesis by blast
qed

text \<open>
  Claim C10, as stated: with the empty salt, decode succeeds for every token whose
  base64 decoding gives at least one block. It does not when the configured secret is not
  a key: \<^verbatim>\<open>aes.NewCipher\<close> fails at line 122, whatever the block function, and with
  \<^verbatim>\<open>SECRET\<close> unset the secret is empty as the salt is.
\<close>

theorem C10_no_key_no_address:
  "DecodeString ''AAECAwQFBgcICQoLDA0ODwECBx4AHgAeAQpTWQ==''
     = Inr [0, 1, 2, 3, 4, 5, 6, 7, 8, 9, 10, 11, 12, 13, 14, 15,
            1, 2, 7, 30, 0, 30, 0, 30, 1, 10, 83, 89]
   \<and> BlockSize \<le> length [0, 1, 2, 3, 4, 5, 6, 7, 8, 9, 10, 11, 12, 13, 14, 15,
            1, 2, 7, 30, 0, 30, 0, 30, 1, 10, 83, 89 :: byte]
   \<and> decode xor_cipher [] [] ''AAECAwQFBgcICQoLDA0ODwECBx4AHgAeAQpTWQ==''
       = Inl KeySizeError"
  by (simp add: decode_def NewCipher_def example_base64_no_salt BlockSize_def)

text \<open>
  Claim C10, amended. Empty salt: with the empty salt, no token gives one of the two salt
  errors, whatever the key; and when the key has a valid length (16, 24 or 32 bytes), a
  token whose base64 decoding gives at least one block decodes to the whole decrypted
  remainder.
\<close>

theorem C10_empty_salt:
  "(DecodeString line = Inr data \<longrightarrow> BlockSize \<le> length data \<longrightarrow>
      (length SecretPassphase = 16 \<or> length SecretPassphase = 24
         \<or> length SecretPassphase = 32) \<longrightarrow>
      decode aes SecretPassphase [] line
        = Inr (string_of_bytes
            (XORKeyStream True (aes SecretPassphase) (take BlockSize data) (drop BlockSize data))))
   \<and> decode aes SecretPassphase [] line \<noteq> Inl SaltCheckFailed
   \<and> decode aes SecretPassphase [] line \<noteq> Inl SaltNotMatch"
  by (auto simp: decode_def Let_def NewCipher_def split: sum.splits)

theorem C10_empty_salt_witness:
  "DecodeString ''AAECAwQFBgcICQoLDA0ODwECBx4AHgAeAQpTWQ==''
     = Inr [0, 1, 2, 3, 4, 5, 6, 7, 8, 9, 10, 11, 12, 13, 14, 15,
            1, 2, 7, 30, 0, 30, 0, 30, 1, 10, 83, 89]
   \<and> BlockSize \<le> length [0, 1, 2, 3, 4, 5, 6, 7, 8, 9, 10, 11, 12, 13, 14, 15,
            1, 2, 7, 30, 0, 30, 0, 30, 1, 10, 83, 89 :: byte]
   \<and> length example_key = 16
   \<and> decode xor_cipher example_key [] ''AAECAwQFBgcICQoLDA0ODwECBx4AHgAeAQpTWQ==''
       = Inr ''127.0.0.1:80''"
proof -
  let ?data = "[0, 1, 2, 3, 4, 5, 6, 7, 8, 9, 10, 11, 12, 13, 14, 15,
            1, 2, 7, 30, 0, 30, 0, 30, 1, 10, 83, 89] :: byte list"
  have l: "BlockSize \<le> length ?data"
    by (simp add: BlockSize_def)
  have k: "length example_key = 16"
    by (simp add: example_key_def bytes_of_string_def)
  have x: "string_of_bytes (XORKeyStream True (xor_cipher example_key)
        (take BlockSize ?data) (drop BlockSize ?data)) = ''127.0.0.1:80''"
    by (simp only: example_stream_no_salt string_of_bytes_of_string)
  from C10_empty_salt [of "''AAECAwQFBgcICQoLDA0ODwECBx4AHgAeAQpTWQ==''" ?data
      example_key xor_cipher]
    example_base64_no_salt l k
  have "decode xor_cipher example_key [] ''AAECAwQFBgcICQoLDA0ODwECBx4AHgAeAQpTWQ==''
      = Inr (string_of_bytes (XORKeyStream True (xor_cipher example_key)
          (take BlockSize ?data) (drop BlockSize ?data)))"
    by blast
  with x have "decode xor_cipher example_key [] ''AAECAwQFBgcICQoLDA0ODwECBx4AHgAeAQpTWQ==''
      = Inr ''127.0.0.1:80''"
    by (simp only:)
  with example_base64_no_salt l k show ?thesis by blast
qed

section \<open>Properties of the handler and of the accept loop\<close>

text \<open>
  Claim C7. Failed tokens are never cached: when decoding the header line fails, neither
  the resolution nor the whole handler changes the snapshot.
\<close>

theorem C7_failed_token_not_cached:
  assumes "decode aes SecretPassphase Salt (rl_line c) = Inl e"
  shows "snd (resolve aes SecretPassphase Salt m (rl_line c)) = m
         \<and> snd (handle aes SecretPassphase Salt m c) = m"
proof -
  have r: "snd (resolve aes SecretPassphase Salt m (rl_line c)) = m"
    using assms by (simp add: resolve_def split: option.splits)
  then have "snd (handle aes SecretPassphase Salt m c) = m"
    by (auto simp: handle_def split: prod.splits sum.splits)
  with r show ?thesis by simp
qed

theorem C7_failed_token_not_cached_witness:
  "decode xor_cipher example_key example_salt
      (rl_line (example_conn ''AAECAwQFBgcICQoLDA0ODwECBx4AHgAeAQpTWRlb'')) = Inl SaltNotMatch
   \<and> snd (resolve xor_cipher example_key example_salt init_cache
        (rl_line (example_conn ''AAECAwQFBgcICQoLDA0ODwECBx4AHgAeAQpTWRlb''))) = init_cache
   \<and> snd (handle xor_cipher example_key example_salt init_cache
        (example_conn ''AAECAwQFBgcICQoLDA0ODwECBx4AHgAeAQpTWRlb'')) = init_cache"
proof -
  have d: "decode xor_cipher example_key example_salt
      (rl_line (example_conn ''AAECAwQFBgcICQoLDA0ODwECBx4AHgAeAQpTWRlb'')) = Inl SaltNotMatch"
    using example_decode_other_salt by (simp add: example_conn_def)
  from C7_failed_token_not_cached [OF d, of init_cache] d show ?thesis by blast
qed



section \<open>The relay returns too early\<close>

text \<open>
  Claim C8 says the relay returns only after both directions have terminated. The code
  calls \<^verbatim>\<open>wg.Add(1)\<close> inside \<^verbatim>\<open>pipe\<close>, that is in the new goroutine, not before the
  \<^verbatim>\<open>go\<close> statement. When the handler takes its three steps first, \<^verbatim>\<open>wg.Wait()\<close> finds
  the counter at zero and returns while neither pipe has copied anything.
\<close>

theorem C8_wait_returns_early:
  "run [Handler, Handler, Handler] relay_init
     = \<lparr>hpc = Returned, pipe1 = Started, pipe2 = Started, wg = 0\<rparr>
   \<and> \<not> terminated (pipe1 (run [Handler, Handler, Handler] relay_init))
   \<and> \<not> terminated (pipe2 (run [Handler, Handler, Handler] relay_init))"
  by (simp add: relay_init_def terminated_def)

end
